theory Spec2Isabelle
  imports Main
begin

section \<open>Data model\<close>

text \<open>
  The persisted rows of the chat backend, as the route handlers in
  \<^verbatim>\<open>src/routes/messages.ts\<close> and \<^verbatim>\<open>src/routes/conversations.ts\<close> read and
  write them through the ORM. Identifiers are strings, timestamps are the
  millisecond value of a JavaScript \<^verbatim>\<open>Date\<close>. A nullable column is an option.
  Message text is a list of UTF-16 code units, the unit on which JavaScript's
  \<^verbatim>\<open>trim\<close> works. Each table is the list of its rows in storage order.
  The surrogate \<^verbatim>\<open>id\<close> columns of the hide, read and reaction tables are never read
  by the handlers and are left out.
\<close>

type_synonym user_id = string
type_synonym conv_id = string
type_synonym message_id = string
type_synonym time = int
type_synonym js_string = "nat list"

datatype msg_type = TEXT | IMAGE | FILE

record message =
  msg_id :: message_id
  msg_conversationId :: conv_id
  msg_senderId :: user_id
  msg_content :: "js_string option"
  msg_type :: msg_type
  msg_fileUrl :: "string option"
  msg_fileName :: "string option"
  msg_fileSize :: "nat option"
  msg_groupId :: "string option"
  msg_createdAt :: time
  msg_deletedAt :: "time option"

record conversation =
  conv_id :: conv_id
  conv_isGroup :: bool
  conv_name :: "string option"
  conv_createdById :: user_id
  conv_createdAt :: time

record participant =
  part_conversationId :: conv_id
  part_userId :: user_id

record conversationHide =
  ch_conversationId :: conv_id
  ch_userId :: user_id
  ch_hiddenAt :: time
  ch_visibleFrom :: "time option"

record messageHide =
  mh_messageId :: message_id
  mh_userId :: user_id
  mh_createdAt :: time

record messageRead =
  mr_messageId :: message_id
  mr_userId :: user_id
  mr_readAt :: time

record messageReaction =
  rx_messageId :: message_id
  rx_userId :: user_id
  rx_emoji :: string

record db =
  conversations :: "conversation list"
  participants :: "participant list"
  messages :: "message list"
  conversationHides :: "conversationHide list"
  messageHides :: "messageHide list"
  messageReads :: "messageRead list"
  messageReactions :: "messageReaction list"

text \<open>
  The error responses of the handlers, one constructor per status code and
  message. \<open>InternalServerError\<close> is the \<^verbatim>\<open>catch\<close> branch (status 500).
  The storage layer itself is taken to be reliable: the only exceptions
  modelled are the ones the handler code raises on its own inputs.
\<close>

datatype error =
  NotAParticipant
  | ContentOrFileRequired
  | MessageNotFound
  | UseDeleteForOwnMessages
  | NotAuthorized
  | InternalServerError

section \<open>Message history: GET /api/messages/:conversationId\<close>

definition limit :: nat where
  "limit = 30"

definition findParticipant :: "db \<Rightarrow> conv_id \<Rightarrow> user_id \<Rightarrow> participant option" where
  "findParticipant s cid u =
     find (\<lambda>p. part_conversationId p = cid \<and> part_userId p = u) (participants s)"

definition findConversationHide :: "db \<Rightarrow> conv_id \<Rightarrow> user_id \<Rightarrow> conversationHide option" where
  "findConversationHide s cid u =
     find (\<lambda>h. ch_conversationId h = cid \<and> ch_userId h = u) (conversationHides s)"

text \<open>\<^verbatim>\<open>hideRecord?.visibleFrom\<close>: a \<^verbatim>\<open>Date\<close> object is always truthy, so the
  window applies exactly when the record exists and the column is not null.\<close>

definition visibleFromOf :: "conversationHide option \<Rightarrow> time option" where
  "visibleFromOf hideRecord =
     (case hideRecord of None \<Rightarrow> None | Some h \<Rightarrow> ch_visibleFrom h)"

text \<open>The \<^verbatim>\<open>where\<close> clause of the history query: the conversation, no hide row
  of the caller on the message, and the window when there is one. There is no
  condition on \<^verbatim>\<open>deletedAt\<close>.\<close>

definition hiddenFor :: "db \<Rightarrow> user_id \<Rightarrow> message \<Rightarrow> bool" where
  "hiddenFor s u m =
     (\<exists>h \<in> set (messageHides s). mh_messageId h = msg_id m \<and> mh_userId h = u)"

definition messageWhere :: "db \<Rightarrow> user_id \<Rightarrow> conv_id \<Rightarrow> time option \<Rightarrow> message \<Rightarrow> bool" where
  "messageWhere s u cid vf m =
     (msg_conversationId m = cid \<and> \<not> hiddenFor s u m \<and>
      (case vf of None \<Rightarrow> True | Some t \<Rightarrow> t \<le> msg_createdAt m))"

text \<open>\<^verbatim>\<open>orderBy: { createdAt: 'desc' }\<close>. Rows with the same timestamp keep
  their storage order.\<close>

definition orderByCreatedAtDesc :: "message list \<Rightarrow> message list" where
  "orderByCreatedAtDesc ms = sort_key (\<lambda>m. - msg_createdAt m) ms"

text \<open>\<^verbatim>\<open>...(cursor && { cursor: { id: cursor }, skip: 1 })\<close>: an absent or empty
  cursor string is falsy and leaves the query unpaged; otherwise the result
  starts at the row with that id and the row itself is skipped. A cursor
  that matches no row of the result gives the empty list.\<close>

definition applyCursor :: "message_id option \<Rightarrow> message list \<Rightarrow> message list" where
  "applyCursor cursor ms =
     (case cursor of
        None \<Rightarrow> ms
      | Some c \<Rightarrow> if c = [] then ms else drop 1 (dropWhile (\<lambda>m. msg_id m \<noteq> c) ms))"

definition visibleMessages :: "db \<Rightarrow> user_id \<Rightarrow> conv_id \<Rightarrow> message list" where
  "visibleMessages s u cid =
     orderByCreatedAtDesc
       (filter (messageWhere s u cid (visibleFromOf (findConversationHide s cid u))) (messages s))"

definition remainingAt :: "db \<Rightarrow> user_id \<Rightarrow> conv_id \<Rightarrow> message_id option \<Rightarrow> message list" where
  "remainingAt s u cid cursor = applyCursor cursor (visibleMessages s u cid)"

definition findManyMessages :: "db \<Rightarrow> user_id \<Rightarrow> conv_id \<Rightarrow> message_id option \<Rightarrow> message list" where
  "findManyMessages s u cid cursor = take limit (remainingAt s u cid cursor)"

text \<open>The \<^verbatim>\<open>include\<close> of the query: each message comes with its read rows and
  its reactions. (The sender's profile is included too; it is a lookup in the
  user table, which no handler modelled here changes, and is left out.)\<close>

record messageView =
  mv_message :: message
  mv_reads :: "(user_id \<times> time) list"
  mv_reactions :: "(user_id \<times> string) list"

definition includeRelations :: "db \<Rightarrow> message \<Rightarrow> messageView" where
  "includeRelations s m =
     \<lparr> mv_message = m,
       mv_reads = map (\<lambda>r. (mr_userId r, mr_readAt r))
                    (filter (\<lambda>r. mr_messageId r = msg_id m) (messageReads s)),
       mv_reactions = map (\<lambda>r. (rx_userId r, rx_emoji r))
                    (filter (\<lambda>r. rx_messageId r = msg_id m) (messageReactions s)) \<rparr>"

definition unreadMessages :: "user_id \<Rightarrow> messageView list \<Rightarrow> messageView list" where
  "unreadMessages u vs =
     filter (\<lambda>v. msg_senderId (mv_message v) \<noteq> u \<and> \<not> (\<exists>r \<in> set (mv_reads v). fst r = u)) vs"

text \<open>\<^verbatim>\<open>messageRead.createMany({ data, skipDuplicates: true })\<close>: a row whose
  (messageId, userId) is already in the table is skipped.\<close>

definition createRead :: "time \<Rightarrow> user_id \<Rightarrow> messageRead list \<Rightarrow> message_id \<Rightarrow> messageRead list" where
  "createRead now u rows mid =
     (if \<exists>r \<in> set rows. mr_messageId r = mid \<and> mr_userId r = u then rows
      else rows @ [\<lparr> mr_messageId = mid, mr_userId = u, mr_readAt = now \<rparr>])"

definition createManyReads :: "time \<Rightarrow> user_id \<Rightarrow> message_id list \<Rightarrow> messageRead list \<Rightarrow> messageRead list" where
  "createManyReads now u mids rows = foldl (createRead now u) rows mids"

record page =
  page_messages :: "messageView list"
  nextCursor :: "message_id option"

text \<open>The handler. \<^verbatim>\<open>messages.reverse()\<close> reverses the array in place and is
  evaluated before \<^verbatim>\<open>nextCursor\<close>, so \<^verbatim>\<open>messages[0]\<close> there is the oldest
  message of the page.\<close>

definition listMessages ::
  "db \<Rightarrow> user_id \<Rightarrow> conv_id \<Rightarrow> message_id option \<Rightarrow> time \<Rightarrow> (error + page) \<times> db" where
  "listMessages s u cid cursor now =
     (case findParticipant s cid u of
        None \<Rightarrow> (Inl NotAParticipant, s)
      | Some _ \<Rightarrow>
          let msgs = map (includeRelations s) (findManyMessages s u cid cursor);
              unread = unreadMessages u msgs;
              s' = (if length unread > 0
                    then s\<lparr> messageReads :=
                              createManyReads now u (map (msg_id \<circ> mv_message) unread) (messageReads s) \<rparr>
                    else s);
              reversed = rev msgs
          in if length reversed = limit
             then (case reversed of
                     [] \<Rightarrow> (Inl InternalServerError, s')
                   | v # _ \<Rightarrow> (Inr \<lparr> page_messages = reversed,
                                      nextCursor = Some (msg_id (mv_message v)) \<rparr>, s'))
             else (Inr \<lparr> page_messages = reversed, nextCursor = None \<rparr>, s'))"

section \<open>Per-message hide: POST /api/messages/:messageId/hide\<close>

text \<open>The upsert has an empty \<^verbatim>\<open>update\<close>: an existing row is left as it is.\<close>

definition hideMessage :: "db \<Rightarrow> user_id \<Rightarrow> message_id \<Rightarrow> time \<Rightarrow> (error + unit) \<times> db" where
  "hideMessage s u mid now =
     (case find (\<lambda>m. msg_id m = mid) (messages s) of
        None \<Rightarrow> (Inl MessageNotFound, s)
      | Some message \<Rightarrow>
          if msg_senderId message = u then (Inl UseDeleteForOwnMessages, s)
          else if \<exists>h \<in> set (messageHides s). mh_messageId h = mid \<and> mh_userId h = u
          then (Inr (), s)
          else (Inr (), s\<lparr> messageHides := messageHides s @
                  [\<lparr> mh_messageId = mid, mh_userId = u, mh_createdAt = now \<rparr>] \<rparr>))"

section \<open>Soft delete: DELETE /api/messages/:messageId\<close>

definition deleteMessage :: "db \<Rightarrow> user_id \<Rightarrow> message_id \<Rightarrow> time \<Rightarrow> (error + unit) \<times> db" where
  "deleteMessage s u mid now =
     (case find (\<lambda>m. msg_id m = mid) (messages s) of
        None \<Rightarrow> (Inl MessageNotFound, s)
      | Some message \<Rightarrow>
          if msg_senderId message \<noteq> u then (Inl NotAuthorized, s)
          else (Inr (), s\<lparr> messages :=
                  map (\<lambda>m. if msg_id m = mid then m\<lparr> msg_deletedAt := Some now \<rparr> else m)
                      (messages s) \<rparr>))"

section \<open>Attachments: GET /api/messages/:conversationId/attachments\<close>

record attachment =
  att_id :: message_id
  att_fileUrl :: "string option"
  att_fileName :: "string option"
  att_type :: msg_type
  att_createdAt :: time
  att_senderId :: user_id

definition attachmentWhere :: "conv_id \<Rightarrow> message \<Rightarrow> bool" where
  "attachmentWhere cid m =
     (msg_conversationId m = cid \<and> msg_type m \<in> {IMAGE, FILE} \<and>
      msg_deletedAt m = None \<and> msg_fileUrl m \<noteq> None)"

definition selectAttachment :: "message \<Rightarrow> attachment" where
  "selectAttachment m =
     \<lparr> att_id = msg_id m, att_fileUrl = msg_fileUrl m, att_fileName = msg_fileName m,
       att_type = msg_type m, att_createdAt = msg_createdAt m, att_senderId = msg_senderId m \<rparr>"

definition listAttachments :: "db \<Rightarrow> user_id \<Rightarrow> conv_id \<Rightarrow> error + attachment list" where
  "listAttachments s u cid =
     (case findParticipant s cid u of
        None \<Rightarrow> Inl NotAParticipant
      | Some _ \<Rightarrow>
          Inr (map selectAttachment
                 (orderByCreatedAtDesc (filter (attachmentWhere cid) (messages s)))))"

section \<open>Hiding a conversation: DELETE /api/conversations/:conversationId\<close>

text \<open>The upsert on the (conversationId, userId) key: an existing record gets a
  fresh \<^verbatim>\<open>hiddenAt\<close> and a null \<^verbatim>\<open>visibleFrom\<close>; otherwise a record is created
  with a null \<^verbatim>\<open>visibleFrom\<close> and the column default for \<^verbatim>\<open>hiddenAt\<close>, the
  current timestamp (migration \<^verbatim>\<open>add_conversation_hide\<close>). One clock value per
  request stands for both.\<close>

definition hideConversation :: "db \<Rightarrow> user_id \<Rightarrow> conv_id \<Rightarrow> time \<Rightarrow> (error + unit) \<times> db" where
  "hideConversation s u cid now =
     (case findParticipant s cid u of
        None \<Rightarrow> (Inl NotAParticipant, s)
      | Some _ \<Rightarrow>
          (Inr (),
           s\<lparr> conversationHides :=
                (case findConversationHide s cid u of
                   Some _ \<Rightarrow>
                     map (\<lambda>h. if ch_conversationId h = cid \<and> ch_userId h = u
                               then h\<lparr> ch_hiddenAt := now, ch_visibleFrom := None \<rparr> else h)
                         (conversationHides s)
                 | None \<Rightarrow>
                     conversationHides s @
                       [\<lparr> ch_conversationId = cid, ch_userId = u,
                          ch_hiddenAt = now, ch_visibleFrom = None \<rparr>]) \<rparr>))"

section \<open>Conversation list: GET /api/conversations\<close>

record conversationEntry =
  ce_conversation :: conversation
  ce_participants :: "user_id list"
  ce_messages :: "message list"
  ce_unreadCount :: nat

definition hidesOf :: "db \<Rightarrow> user_id \<Rightarrow> conversationHide list" where
  "hidesOf s u = filter (\<lambda>h. ch_userId h = u) (conversationHides s)"

definition trulyHidden :: "conversationHide list \<Rightarrow> conv_id list" where
  "trulyHidden hides = map ch_conversationId (filter (\<lambda>h. ch_visibleFrom h = None) hides)"

definition restarted :: "conversationHide list \<Rightarrow> conversationHide list" where
  "restarted hides = filter (\<lambda>h. ch_visibleFrom h \<noteq> None) hides"

text \<open>\<^verbatim>\<open>new Map(restarted.map(...))\<close>: of two entries with one key the later wins.\<close>

definition visibleFromMap :: "conversationHide list \<Rightarrow> conv_id \<Rightarrow> time option" where
  "visibleFromMap hides cid =
     (case map_of (rev (map (\<lambda>h. (ch_conversationId h, ch_visibleFrom h)) (restarted hides))) cid of
        None \<Rightarrow> None
      | Some vf \<Rightarrow> vf)"

definition lastMessageInclude :: "db \<Rightarrow> conv_id \<Rightarrow> message list" where
  "lastMessageInclude s cid =
     take 1 (orderByCreatedAtDesc
               (filter (\<lambda>m. msg_conversationId m = cid \<and> msg_deletedAt m = None) (messages s)))"

definition findManyConversations :: "db \<Rightarrow> user_id \<Rightarrow> conv_id list \<Rightarrow> conversation list" where
  "findManyConversations s u excluded =
     sort_key (\<lambda>c. - conv_createdAt c)
       (filter (\<lambda>c. (\<exists>p \<in> set (participants s).
                        part_conversationId p = conv_id c \<and> part_userId p = u) \<and>
                     conv_id c \<notin> set excluded)
          (conversations s))"

definition previewFor :: "time option \<Rightarrow> message list \<Rightarrow> message list" where
  "previewFor visibleFrom msgs =
     (case (visibleFrom, msgs) of
        (Some vf, m # _) \<Rightarrow> if msg_createdAt m < vf then [] else msgs
      | _ \<Rightarrow> msgs)"

definition unreadCount :: "db \<Rightarrow> user_id \<Rightarrow> conv_id \<Rightarrow> time option \<Rightarrow> nat" where
  "unreadCount s u cid visibleFrom =
     length (filter (\<lambda>m. msg_conversationId m = cid \<and> msg_senderId m \<noteq> u \<and>
                          msg_deletedAt m = None \<and>
                          \<not> (\<exists>r \<in> set (messageReads s). mr_messageId r = msg_id m \<and> mr_userId r = u) \<and>
                          (case visibleFrom of None \<Rightarrow> True | Some vf \<Rightarrow> vf \<le> msg_createdAt m))
               (messages s))"

definition entryFor :: "db \<Rightarrow> user_id \<Rightarrow> conversationHide list \<Rightarrow> conversation \<Rightarrow> conversationEntry" where
  "entryFor s u hides conv =
     (let visibleFrom = visibleFromMap hides (conv_id conv)
      in \<lparr> ce_conversation = conv,
           ce_participants = map part_userId
              (filter (\<lambda>p. part_conversationId p = conv_id conv) (participants s)),
           ce_messages = previewFor visibleFrom (lastMessageInclude s (conv_id conv)),
           ce_unreadCount = unreadCount s u (conv_id conv) visibleFrom \<rparr>)"

text \<open>The comparator of the final \<^verbatim>\<open>sort\<close>:
  \<^verbatim>\<open>a.messages[0]?.createdAt ?? a.createdAt\<close>, descending. The comparator looks
  at nothing else, and \<^verbatim>\<open>Array.prototype.sort\<close> is stable.\<close>

definition sortTime :: "conversationEntry \<Rightarrow> time" where
  "sortTime e =
     (case ce_messages e of
        [] \<Rightarrow> conv_createdAt (ce_conversation e)
      | m # _ \<Rightarrow> msg_createdAt m)"

definition listConversations :: "db \<Rightarrow> user_id \<Rightarrow> conversationEntry list" where
  "listConversations s u =
     (let hides = hidesOf s u
      in sort_key (\<lambda>e. - sortTime e)
           (map (entryFor s u hides) (findManyConversations s u (trulyHidden hides))))"

section \<open>Sending: POST /api/messages/:conversationId\<close>

text \<open>
  What the handler takes from outside: the uploaded files as the upload
  middleware hands them over, the blob store (\<open>None\<close> when the upload promise
  rejects), the random group id, and for the k-th row created by the request
  its id and its \<^verbatim>\<open>createdAt\<close> column default.
\<close>

record uploadFile =
  file_mimetype :: string
  file_originalname :: string
  file_size :: nat

record sendEnv =
  uploadToCloudinary :: "uploadFile \<Rightarrow> string option"
  randomUUID :: string
  stamp :: "nat \<Rightarrow> message_id \<times> time"

text \<open>\<^verbatim>\<open>String.prototype.trim\<close>: white space and line terminators of
  ECMAScript, as code units, removed from both ends.\<close>

definition isWhiteSpace :: "nat \<Rightarrow> bool" where
  "isWhiteSpace c =
     (c \<in> {9, 10, 11, 12, 13, 32, 160, 5760, 8232, 8233, 8239, 8287, 12288, 65279} \<or>
      (8192 \<le> c \<and> c \<le> 8202))"

definition trim :: "js_string \<Rightarrow> js_string" where
  "trim str = rev (dropWhile isWhiteSpace (rev (dropWhile isWhiteSpace str)))"

text \<open>Truthiness of \<^verbatim>\<open>content\<close>: \<^verbatim>\<open>undefined\<close> and the empty string are falsy.\<close>

definition truthy :: "js_string option \<Rightarrow> bool" where
  "truthy content = (case content of None \<Rightarrow> False | Some c \<Rightarrow> c \<noteq> [])"

definition startsWith :: "string \<Rightarrow> string \<Rightarrow> bool" where
  "startsWith str prefix = (take (length prefix) str = prefix)"

text \<open>The loop over the files: upload, then create the row. A rejected upload
  throws out of the loop; the rows created so far stay.\<close>

fun createFileMessages ::
  "sendEnv \<Rightarrow> conv_id \<Rightarrow> user_id \<Rightarrow> string option \<Rightarrow> uploadFile list \<Rightarrow> db \<Rightarrow> message list
     \<Rightarrow> db \<times> message list option" where
  "createFileMessages env cid u groupId [] s msgs = (s, Some msgs)"
| "createFileMessages env cid u groupId (file # files) s msgs =
     (case uploadToCloudinary env file of
        None \<Rightarrow> (s, None)
      | Some fileUrl \<Rightarrow>
          let message =
                \<lparr> msg_id = fst (stamp env (length msgs)),
                  msg_conversationId = cid,
                  msg_senderId = u,
                  msg_content = None,
                  msg_type = (if startsWith (file_mimetype file) ''image/'' then IMAGE else FILE),
                  msg_fileUrl = Some fileUrl,
                  msg_fileName = Some (file_originalname file),
                  msg_fileSize = Some (file_size file),
                  msg_groupId = groupId,
                  msg_createdAt = snd (stamp env (length msgs)),
                  msg_deletedAt = None \<rparr>
          in createFileMessages env cid u groupId files
               (s\<lparr> messages := messages s @ [message] \<rparr>) (msgs @ [message]))"

definition createTextMessage ::
  "sendEnv \<Rightarrow> conv_id \<Rightarrow> user_id \<Rightarrow> string option \<Rightarrow> js_string \<Rightarrow> nat \<Rightarrow> message" where
  "createTextMessage env cid u groupId text k =
     \<lparr> msg_id = fst (stamp env k),
       msg_conversationId = cid,
       msg_senderId = u,
       msg_content = Some text,
       msg_type = TEXT,
       msg_fileUrl = None,
       msg_fileName = None,
       msg_fileSize = None,
       msg_groupId = groupId,
       msg_createdAt = snd (stamp env k),
       msg_deletedAt = None \<rparr>"

text \<open>The two \<^verbatim>\<open>conversationHide.updateMany\<close> calls: the sender's record, then
  the records of everybody else, each only where \<^verbatim>\<open>visibleFrom\<close> is null.\<close>

definition updateManyVisibleFrom ::
  "conv_id \<Rightarrow> (user_id \<Rightarrow> bool) \<Rightarrow> time \<Rightarrow> conversationHide list \<Rightarrow> conversationHide list" where
  "updateManyVisibleFrom cid userCond t rows =
     map (\<lambda>h. if ch_conversationId h = cid \<and> userCond (ch_userId h) \<and> ch_visibleFrom h = None
               then h\<lparr> ch_visibleFrom := Some t \<rparr> else h) rows"

text \<open>The handler. \<^verbatim>\<open>messages[0].createdAt\<close> on an empty array is a
  \<^verbatim>\<open>TypeError\<close>, raised while the argument of the first \<^verbatim>\<open>updateMany\<close> is
  built.\<close>

definition sendMessage ::
  "db \<Rightarrow> user_id \<Rightarrow> conv_id \<Rightarrow> js_string option \<Rightarrow> uploadFile list \<Rightarrow> sendEnv
     \<Rightarrow> (error + message list) \<times> db" where
  "sendMessage s u cid content files env =
     (case findParticipant s cid u of
        None \<Rightarrow> (Inl NotAParticipant, s)
      | Some _ \<Rightarrow>
          if \<not> truthy content \<and> length files = 0 then (Inl ContentOrFileRequired, s)
          else
            let groupId = (if length files > 0 then Some (randomUUID env) else None)
            in (case createFileMessages env cid u groupId files s [] of
                  (s1, None) \<Rightarrow> (Inl InternalServerError, s1)
                | (s1, Some fileMsgs) \<Rightarrow>
                    let textMsgs =
                          (case content of
                             None \<Rightarrow> []
                           | Some c \<Rightarrow>
                               if trim c \<noteq> []
                               then [createTextMessage env cid u groupId (trim c) (length fileMsgs)]
                               else []);
                        s2 = s1\<lparr> messages := messages s1 @ textMsgs \<rparr>;
                        msgs = fileMsgs @ textMsgs
                    in (case msgs of
                          [] \<Rightarrow> (Inl InternalServerError, s2)
                        | first # _ \<Rightarrow>
                            let s3 = s2\<lparr> conversationHides :=
                                      updateManyVisibleFrom cid (\<lambda>v. v = u) (msg_createdAt first)
                                        (conversationHides s2) \<rparr>;
                                s4 = s3\<lparr> conversationHides :=
                                      updateManyVisibleFrom cid (\<lambda>v. v \<noteq> u) (msg_createdAt first)
                                        (conversationHides s3) \<rparr>
                            in (Inr msgs, s4))))"

section \<open>Example states\<close>

text \<open>A direct conversation of two users with three messages, the last one
  soft-deleted by its sender.\<close>

definition demoMessage :: "message_id \<Rightarrow> user_id \<Rightarrow> js_string \<Rightarrow> time \<Rightarrow> message" where
  "demoMessage i u text t =
     \<lparr> msg_id = i, msg_conversationId = ''c1'', msg_senderId = u, msg_content = Some text,
       msg_type = TEXT, msg_fileUrl = None, msg_fileName = None, msg_fileSize = None,
       msg_groupId = None, msg_createdAt = t, msg_deletedAt = None \<rparr>"

definition demoImage :: "message_id \<Rightarrow> user_id \<Rightarrow> time \<Rightarrow> message" where
  "demoImage i u t =
     \<lparr> msg_id = i, msg_conversationId = ''c1'', msg_senderId = u, msg_content = None,
       msg_type = IMAGE, msg_fileUrl = Some ''https://blob/cat.png'',
       msg_fileName = Some ''cat.png'', msg_fileSize = Some 2048,
       msg_groupId = Some ''g1'', msg_createdAt = t, msg_deletedAt = None \<rparr>"

definition demo :: db where
  "demo =
     \<lparr> conversations =
         [\<lparr> conv_id = ''c1'', conv_isGroup = False, conv_name = None,
            conv_createdById = ''alice'', conv_createdAt = 1 \<rparr>],
       participants =
         [\<lparr> part_conversationId = ''c1'', part_userId = ''alice'' \<rparr>,
          \<lparr> part_conversationId = ''c1'', part_userId = ''bob'' \<rparr>],
       messages =
         [demoMessage ''m1'' ''alice'' [104, 105] 10,
          demoImage ''m2'' ''bob'' 20,
          (demoMessage ''m3'' ''bob'' [115, 101, 99, 114, 101, 116] 30)\<lparr> msg_deletedAt := Some 35 \<rparr>],
       conversationHides = [],
       messageHides = [],
       messageReads = [],
       messageReactions = [] \<rparr>"

text \<open>The same conversation with the caller windowed, with hide records of
  several kinds, and with one message hidden by the caller; and an environment
  for sending.\<close>

definition demoWindowed :: db where
  "demoWindowed =
     demo\<lparr> conversationHides :=
       [\<lparr> ch_conversationId = ''c1'', ch_userId = ''alice'', ch_hiddenAt = 5,
          ch_visibleFrom = Some 25 \<rparr>] \<rparr>"

definition demoHidden :: db where
  "demoHidden =
     demo\<lparr> conversationHides :=
       [\<lparr> ch_conversationId = ''c1'', ch_userId = ''alice'', ch_hiddenAt = 31,
          ch_visibleFrom = None \<rparr>,
        \<lparr> ch_conversationId = ''c1'', ch_userId = ''bob'', ch_hiddenAt = 6,
          ch_visibleFrom = Some 7 \<rparr>,
        \<lparr> ch_conversationId = ''c2'', ch_userId = ''alice'', ch_hiddenAt = 8,
          ch_visibleFrom = None \<rparr>] \<rparr>"

definition demoMessageHidden :: db where
  "demoMessageHidden =
     demo\<lparr> messageHides :=
       [\<lparr> mh_messageId = ''m2'', mh_userId = ''alice'', mh_createdAt = 22 \<rparr>] \<rparr>"

definition demoEnv :: sendEnv where
  "demoEnv =
     \<lparr> uploadToCloudinary = (\<lambda>f. Some ''https://blob/new''),
       randomUUID = ''g9'',
       stamp = (\<lambda>k. (replicate (Suc k) (CHR ''n''), 40 + int k)) \<rparr>"

text \<open>A conversation filled with n messages in the order they were sent, and
  two group conversations created at the same instant, stored in either order.\<close>

definition bulkMessage :: "nat \<Rightarrow> message" where
  "bulkMessage i =
     demoMessage (replicate (Suc i) (CHR ''m'')) (if even i then ''alice'' else ''bob'')
       [104, 105] (int i)"

definition bulk :: "nat \<Rightarrow> db" where
  "bulk n = demo\<lparr> messages := map bulkMessage [0..<n] \<rparr>"

definition tieA :: db where
  "tieA =
     \<lparr> conversations =
         [\<lparr> conv_id = ''c1'', conv_isGroup = True, conv_name = Some ''one'',
            conv_createdById = ''alice'', conv_createdAt = 7 \<rparr>,
          \<lparr> conv_id = ''c2'', conv_isGroup = True, conv_name = Some ''two'',
            conv_createdById = ''alice'', conv_createdAt = 7 \<rparr>],
       participants =
         [\<lparr> part_conversationId = ''c1'', part_userId = ''alice'' \<rparr>,
          \<lparr> part_conversationId = ''c2'', part_userId = ''alice'' \<rparr>],
       messages = [],
       conversationHides = [],
       messageHides = [],
       messageReads = [],
       messageReactions = [] \<rparr>"

definition tieB :: db where
  "tieB = tieA\<lparr> conversations := rev (conversations tieA) \<rparr>"




definition tieC :: db where
  "tieC =
     \<lparr> conversations =
         [\<lparr> conv_id = ''c3'', conv_isGroup = True, conv_name = Some ''three'',
            conv_createdById = ''alice'', conv_createdAt = 3 \<rparr>,
          \<lparr> conv_id = ''c4'', conv_isGroup = True, conv_name = Some ''four'',
            conv_createdById = ''bob'', conv_createdAt = 9 \<rparr>,
          \<lparr> conv_id = ''c2'', conv_isGroup = True, conv_name = Some ''two'',
            conv_createdById = ''alice'', conv_createdAt = 7 \<rparr>,
          \<lparr> conv_id = ''c5'', conv_isGroup = True, conv_name = Some ''five'',
            conv_createdById = ''alice'', conv_createdAt = 8 \<rparr>,
          \<lparr> conv_id = ''c1'', conv_isGroup = False, conv_name = None,
            conv_createdById = ''alice'', conv_createdAt = 7 \<rparr>],
       participants =
         [\<lparr> part_conversationId = ''c1'', part_userId = ''alice'' \<rparr>,
          \<lparr> part_conversationId = ''c1'', part_userId = ''bob'' \<rparr>,
          \<lparr> part_conversationId = ''c2'', part_userId = ''alice'' \<rparr>,
          \<lparr> part_conversationId = ''c3'', part_userId = ''alice'' \<rparr>,
          \<lparr> part_conversationId = ''c4'', part_userId = ''bob'' \<rparr>,
          \<lparr> part_conversationId = ''c5'', part_userId = ''alice'' \<rparr>],
       messages =
         [demoMessage ''m1'' ''bob'' [104, 105] 50,
          (demoMessage ''m2'' ''alice'' [111, 107] 7)\<lparr> msg_conversationId := ''c3'' \<rparr>,
          (demoMessage ''m3'' ''alice'' [110, 111] 90)
             \<lparr> msg_conversationId := ''c3'', msg_deletedAt := Some 95 \<rparr>],
       conversationHides =
         [\<lparr> ch_conversationId = ''c1'', ch_userId = ''alice'', ch_hiddenAt = 55,
            ch_visibleFrom = Some 60 \<rparr>,
          \<lparr> ch_conversationId = ''c5'', ch_userId = ''alice'', ch_hiddenAt = 56,
            ch_visibleFrom = None \<rparr>],
       messageHides = [],
       messageReads = [],
       messageReactions = [] \<rparr>"

section \<open>Properties of the message history\<close>

lemma listMessages_state:
  "snd (listMessages s u cid cursor now) =
     (case findParticipant s cid u of None \<Rightarrow> s
      | Some _ \<Rightarrow>
        (let unread = unreadMessages u (map (includeRelations s) (findManyMessages s u cid cursor))
         in if unread \<noteq> [] then s\<lparr> messageReads :=
                              createManyReads now u (map (msg_id \<circ> mv_message) unread) (messageReads s) \<rparr>
            else s))"
  unfolding listMessages_def Let_def
  by (simp split: option.split list.split)

lemma mv_message_includeRelations: "mv_message (includeRelations s m) = m"
  by (simp add: includeRelations_def)

lemma listMessages_response:
  "fst (listMessages s u cid cursor now) =
     (case findParticipant s cid u of None \<Rightarrow> Inl NotAParticipant
      | Some _ \<Rightarrow>
          Inr \<lparr> page_messages = rev (map (includeRelations s) (findManyMessages s u cid cursor)),
                nextCursor = (if length (findManyMessages s u cid cursor) = limit
                              then Some (msg_id (last (findManyMessages s u cid cursor))) else None) \<rparr>)"
proof (cases "findParticipant s cid u")
  case None
  then show ?thesis by (simp add: listMessages_def)
next
  case (Some p)
  let ?M = "findManyMessages s u cid cursor"
  show ?thesis
  proof (cases "length ?M = limit")
    case True
    then have ne: "?M \<noteq> []" by (auto simp: limit_def)
    have eq: "(case rev (map (includeRelations s) ?M) of [] \<Rightarrow> (Inl InternalServerError, X)
           | v # _ \<Rightarrow> (Inr \<lparr> page_messages = rev (map (includeRelations s) ?M),
                                      nextCursor = Some (msg_id (mv_message v)) \<rparr>, X))
          = (Inr \<lparr> page_messages = rev (map (includeRelations s) ?M),
                                      nextCursor = Some (msg_id (mv_message (includeRelations s (last ?M)))) \<rparr>, X)" for X :: db
      using ne by (cases ?M rule: rev_cases) simp_all
    show ?thesis using Some True
      by (simp add: listMessages_def Let_def eq mv_message_includeRelations)
  next
    case False
    then show ?thesis using Some by (simp add: listMessages_def Let_def)
  qed
qed

lemma createRead_has: "\<exists>r \<in> set (createRead now u rows mid). mr_messageId r = mid \<and> mr_userId r = u"
  by (auto simp: createRead_def)

lemma createRead_keeps: "r \<in> set rows \<Longrightarrow> r \<in> set (createRead now u rows mid)"
  by (auto simp: createRead_def)

lemma foldl_createRead_keeps: "r \<in> set rows \<Longrightarrow> r \<in> set (foldl (createRead now u) rows mids)"
  by (induction mids arbitrary: rows) (simp_all add: createRead_keeps)

lemma foldl_createRead_has:
  "mid \<in> set mids \<Longrightarrow>
   \<exists>r \<in> set (foldl (createRead now u) rows mids). mr_messageId r = mid \<and> mr_userId r = u"
proof (induction mids arbitrary: rows)
  case Nil then show ?case by simp
next
  case (Cons a mids)
  show ?case
  proof (cases "mid = a")
    case True
    obtain r where r: "r \<in> set (createRead now u rows a)" "mr_messageId r = a" "mr_userId r = u"
      using createRead_has by blast
    have "r \<in> set (foldl (createRead now u) (createRead now u rows a) mids)"
      using r(1) by (rule foldl_createRead_keeps)
    then show ?thesis using r True by auto
  next
    case False
    then have "mid \<in> set mids" using Cons.prems by simp
    from Cons.IH[OF this] show ?thesis by simp
  qed
qed

lemma messageWhere_cong:
  "messageHides s' = messageHides s \<Longrightarrow> messageWhere s' = messageWhere s"
  by (intro ext) (simp add: messageWhere_def hiddenFor_def)

lemma findManyMessages_cong:
  "messages s' = messages s \<Longrightarrow> conversationHides s' = conversationHides s \<Longrightarrow>
   messageHides s' = messageHides s \<Longrightarrow> findManyMessages s' u cid cursor = findManyMessages s u cid cursor"
  using messageWhere_cong[of s' s]
  by (simp add: findManyMessages_def remainingAt_def visibleMessages_def findConversationHide_def)

lemma listMessages_fields:
  "messages (snd (listMessages s u cid cursor now)) = messages s"
  "conversationHides (snd (listMessages s u cid cursor now)) = conversationHides s"
  "messageHides (snd (listMessages s u cid cursor now)) = messageHides s"
  "participants (snd (listMessages s u cid cursor now)) = participants s"
  "conversations (snd (listMessages s u cid cursor now)) = conversations s"
  "messageReactions (snd (listMessages s u cid cursor now)) = messageReactions s"
  by (simp_all add: listMessages_state Let_def split: option.split)

lemma unread_after_read_empty:
  assumes "findParticipant s cid u = Some p"
  shows "unreadMessages u (map (includeRelations (snd (listMessages s u cid cursor now)))
           (findManyMessages s u cid cursor)) = []"
proof -
  let ?M = "findManyMessages s u cid cursor"
  let ?unread = "unreadMessages u (map (includeRelations s) ?M)"
  let ?s' = "snd (listMessages s u cid cursor now)"
  have reads': "messageReads ?s' =
      (if ?unread \<noteq> [] then createManyReads now u (map (msg_id \<circ> mv_message) ?unread) (messageReads s)
       else messageReads s)"
    using assms by (simp add: listMessages_state Let_def)
  have keep: "r \<in> set (messageReads s) \<Longrightarrow> r \<in> set (messageReads ?s')" for r
    unfolding reads' createManyReads_def by (simp add: foldl_createRead_keeps)
  have "\<exists>r \<in> set (messageReads ?s'). mr_messageId r = msg_id m \<and> mr_userId r = u"
    if m: "m \<in> set ?M" "msg_senderId m \<noteq> u" for m
  proof (cases "\<exists>r \<in> set (messageReads s). mr_messageId r = msg_id m \<and> mr_userId r = u")
    case True
    then show ?thesis using keep by blast
  next
    case False
    then have "includeRelations s m \<in> set ?unread"
      using m by (auto simp: unreadMessages_def includeRelations_def)
    then have ne: "?unread \<noteq> []" and
      "msg_id m \<in> set (map (msg_id \<circ> mv_message) ?unread)"
      by (auto simp: mv_message_includeRelations intro!: image_eqI[where x = "includeRelations s m"])
    then show ?thesis
      unfolding reads' createManyReads_def using foldl_createRead_has by simp
  qed
  then show ?thesis
    by (auto simp: unreadMessages_def filter_empty_conv includeRelations_def)
qed

section \<open>Properties of the hide and send handlers\<close>

lemma hideMessage_fields:
  "messages (snd (hideMessage s a mid t)) = messages s"
  "conversationHides (snd (hideMessage s a mid t)) = conversationHides s"
  "participants (snd (hideMessage s a mid t)) = participants s"
  "messageReads (snd (hideMessage s a mid t)) = messageReads s"
  "messageReactions (snd (hideMessage s a mid t)) = messageReactions s"
  "conversations (snd (hideMessage s a mid t)) = conversations s"
  by (simp_all add: hideMessage_def split: option.split)

lemma hideMessage_hides:
  "messageHides (snd (hideMessage s a mid t)) = messageHides s \<or>
   messageHides (snd (hideMessage s a mid t)) =
     messageHides s @ [\<lparr> mh_messageId = mid, mh_userId = a, mh_createdAt = t \<rparr>]"
  by (simp add: hideMessage_def split: option.split)

lemma hideMessage_other_user:
  assumes "a \<noteq> b"
  shows "hiddenFor (snd (hideMessage s a mid t)) b = hiddenFor s b"
proof (intro ext)
  fix m
  show "hiddenFor (snd (hideMessage s a mid t)) b m = hiddenFor s b m"
    using hideMessage_hides[of s a mid t] assms by (auto simp: hiddenFor_def)
qed

lemma findManyMessages_hiddenFor:
  "messages s' = messages s \<Longrightarrow> conversationHides s' = conversationHides s \<Longrightarrow>
   hiddenFor s' u = hiddenFor s u \<Longrightarrow>
   findManyMessages s' u cid cursor = findManyMessages s u cid cursor"
proof -
  assume a: "messages s' = messages s" "conversationHides s' = conversationHides s"
    "hiddenFor s' u = hiddenFor s u"
  have "messageWhere s' u cid vf = messageWhere s u cid vf" for vf
    by (intro ext) (simp add: messageWhere_def a(3))
  then show ?thesis
    by (simp add: findManyMessages_def remainingAt_def visibleMessages_def
        findConversationHide_def a(1,2))
qed

lemma includeRelations_cong:
  "messageReads s' = messageReads s \<Longrightarrow> messageReactions s' = messageReactions s \<Longrightarrow>
   includeRelations s' = includeRelations s"
  by (intro ext) (simp add: includeRelations_def)

lemma find_append_miss: "find P xs = None \<Longrightarrow> find P (xs @ [x]) = (if P x then Some x else None)"
  by (induction xs) (auto split: if_splits)

lemma find_map_keep:
  "(\<And>x. P (f x) = P x) \<Longrightarrow> find P (map f xs) = map_option f (find P xs)"
  by (induction xs) auto

lemma hideConversation_record:
  assumes "findParticipant s cid u = Some p"
  shows "map_option (\<lambda>h. (ch_hiddenAt h, ch_visibleFrom h))
           (findConversationHide (snd (hideConversation s u cid now)) cid u) = Some (now, None)"
proof (cases "findConversationHide s cid u")
  case None
  then show ?thesis
    using assms find_append_miss[of "\<lambda>h. ch_conversationId h = cid \<and> ch_userId h = u" "conversationHides s"]
    by (simp add: hideConversation_def findConversationHide_def)
next
  case (Some h)
  let ?P = "\<lambda>h. ch_conversationId h = cid \<and> ch_userId h = u"
  let ?f = "\<lambda>h. if ch_conversationId h = cid \<and> ch_userId h = u
                               then h\<lparr> ch_hiddenAt := now, ch_visibleFrom := None \<rparr> else h"
  have "find ?P (map ?f (conversationHides s)) = map_option ?f (find ?P (conversationHides s))"
    by (rule find_map_keep) simp
  moreover have "?P h" using Some by (auto simp: findConversationHide_def find_Some_iff)
  ultimately show ?thesis
    using assms Some by (simp add: hideConversation_def findConversationHide_def)
qed

lemma trulyHidden_excluded:
  assumes "findConversationHide s cid u = Some h" "ch_visibleFrom h = None"
  shows "cid \<notin> set (map (conv_id \<circ> ce_conversation) (listConversations s u))"
proof -
  have "h \<in> set (conversationHides s)" "ch_conversationId h = cid" "ch_userId h = u"
    using assms(1) by (auto simp: findConversationHide_def find_Some_iff in_set_conv_nth)
  then have "cid \<in> set (trulyHidden (hidesOf s u))"
    using assms(2) by (force simp: trulyHidden_def hidesOf_def)
  then show ?thesis
    by (auto simp: listConversations_def Let_def findManyConversations_def entryFor_def)
qed



lemma trim_whitespace:
  assumes "\<forall>c \<in> set str. isWhiteSpace c"
  shows "trim str = []"
proof -
  have drop: "dropWhile isWhiteSpace str = []" using assms by simp
  show ?thesis unfolding trim_def drop by simp
qed




section \<open>Unfolding sets for evaluation\<close>

lemmas demo_defs = demo_def demoMessage_def demoImage_def demoWindowed_def demoHidden_def
  demoMessageHidden_def demoEnv_def

section \<open>Properties of cursor pagination\<close>

lemma dropWhile_nth:
  "distinct (map f xs) \<Longrightarrow> n < length xs \<Longrightarrow>
   dropWhile (\<lambda>x. f x \<noteq> f (xs ! n)) xs = drop n xs"
proof (induction xs arbitrary: n)
  case Nil
  then show ?case by simp
next
  case (Cons x xs)
  show ?case
  proof (cases n)
    case 0
    then show ?thesis by simp
  next
    case (Suc k)
    then have k: "k < length xs" using Cons.prems by simp
    then have "f (xs ! k) \<in> set (map f xs)" by simp
    then have "f x \<noteq> f (xs ! k)" using Cons.prems(1) by auto
    then show ?thesis using Suc Cons.IH[of k] Cons.prems(1) k by simp
  qed
qed

lemma applyCursor_nth:
  assumes "distinct (map msg_id L)" "[] \<notin> msg_id ` set L" "k \<le> length L"
  shows "applyCursor (if k = 0 then None else Some (msg_id (L ! (k - 1)))) L = drop k L"
proof (cases "k = 0")
  case True
  then show ?thesis by (simp add: applyCursor_def)
next
  case False
  then have lt: "k - 1 < length L" using assms(3) by simp
  then have "msg_id (L ! (k - 1)) \<noteq> []" using assms(2) nth_mem by force
  moreover have "dropWhile (\<lambda>m. msg_id m \<noteq> msg_id (L ! (k - 1))) L = drop (k - 1) L"
    using dropWhile_nth[OF assms(1) lt] .
  ultimately show ?thesis using False by (simp add: applyCursor_def)
qed

lemma visibleMessages_cong:
  "messages s' = messages s \<Longrightarrow> conversationHides s' = conversationHides s \<Longrightarrow>
   messageHides s' = messageHides s \<Longrightarrow> visibleMessages s' u cid = visibleMessages s u cid"
  using messageWhere_cong[of s' s]
  by (simp add: visibleMessages_def findConversationHide_def)

lemma visibleMessages_after_read:
  "visibleMessages (snd (listMessages s u' cid' cursor now)) u cid = visibleMessages s u cid"
  by (rule visibleMessages_cong) (simp_all add: listMessages_fields)

lemma findParticipant_after_read:
  "findParticipant (snd (listMessages s u' cid' cursor now)) cid u = findParticipant s cid u"
  by (simp add: findParticipant_def listMessages_fields)

lemma last_take_drop:
  "0 < n \<Longrightarrow> k + n \<le> length L \<Longrightarrow> last (take n (drop k L)) = L ! (k + n - 1)"
proof -
  assume a: "0 < n" "k + n \<le> length L"
  then have len: "length (take n (drop k L)) = n" by simp
  then have "take n (drop k L) \<noteq> []" using a(1) by auto
  then have "last (take n (drop k L)) = take n (drop k L) ! (n - 1)"
    using len by (simp add: last_conv_nth)
  also have "\<dots> = L ! (k + (n - 1))" using a by simp
  finally show ?thesis using a by simp
qed

lemma page_at:
  assumes "findParticipant s cid u \<noteq> None" "visibleMessages s u cid = L"
    "distinct (map msg_id L)" "[] \<notin> msg_id ` set L" "k \<le> length L"
  shows "fst (listMessages s u cid (if k = 0 then None else Some (msg_id (L ! (k - 1)))) now) =
           Inr \<lparr> page_messages = rev (map (includeRelations s) (take limit (drop k L))),
                 nextCursor = (if k + limit \<le> length L
                               then Some (msg_id (L ! (k + limit - 1))) else None) \<rparr>"
proof -
  let ?c = "if k = 0 then None else Some (msg_id (L ! (k - 1)))"
  have fm: "findManyMessages s u cid ?c = take limit (drop k L)"
    unfolding findManyMessages_def remainingAt_def assms(2)
    using applyCursor_nth[OF assms(3,4,5)] by simp
  have len: "(length (take limit (drop k L)) = limit) = (k + limit \<le> length L)"
    using assms(5) by auto
  have lst: "k + limit \<le> length L \<Longrightarrow> last (take limit (drop k L)) = L ! (k + limit - 1)"
    by (rule last_take_drop) (simp_all add: limit_def)
  obtain p where "findParticipant s cid u = Some p" using assms(1) by auto
  then show ?thesis
    unfolding listMessages_response fm len using lst by simp
qed

lemma visibleMessages_distinct:
  "distinct (map msg_id (messages s)) \<Longrightarrow> distinct (map msg_id (visibleMessages s u cid))"
  by (simp add: visibleMessages_def orderByCreatedAtDesc_def distinct_map distinct_map_filter
      inj_on_def)

lemma visibleMessages_subset: "set (visibleMessages s u cid) \<subseteq> set (messages s)"
  by (auto simp: visibleMessages_def orderByCreatedAtDesc_def)

lemma visibleMessages_sorted:
  "sorted (map (\<lambda>m. - msg_createdAt m) (visibleMessages s u cid))"
  by (simp add: visibleMessages_def orderByCreatedAtDesc_def)

lemma page_ascending:
  assumes "sorted (map (\<lambda>m. - msg_createdAt m) L)"
  shows "sorted (map msg_createdAt (rev (take n (drop k L))))"
proof -
  have "sorted (take n (drop k (map (\<lambda>m. - msg_createdAt m) L)))"
    using assms by simp
  then have "sorted (map (\<lambda>m. - msg_createdAt m) (take n (drop k L)))"
    by (simp add: take_map drop_map)
  then have "sorted_wrt (\<lambda>x y. msg_createdAt y \<le> msg_createdAt x) (take n (drop k L))"
    by (simp add: sorted_map)
  then show ?thesis
    by (simp add: sorted_wrt_rev sorted_wrt_map flip: rev_map)
qed

lemma four_slices:
  assumes "length (L :: 'a list) = 100"
  shows "take 30 L @ take 30 (drop 30 L) @ take 30 (drop 60 L) @ take 30 (drop 90 L) = L"
proof -
  have a: "take 30 (drop 90 L) = drop 90 L" using assms by simp
  have b: "take 30 (drop 60 L) @ drop 90 L = drop 60 L"
    using append_take_drop_id[of 30 "drop 60 L"] by simp
  have c: "take 30 (drop 30 L) @ drop 60 L = drop 30 L"
    using append_take_drop_id[of 30 "drop 30 L"] by simp
  show ?thesis unfolding a b c by simp
qed

lemma applyCursor_suffix: "\<exists>j \<le> length L. applyCursor cursor L = drop j L"
proof (cases "cursor = None \<or> cursor = Some []")
  case True
  then have "applyCursor cursor L = drop 0 L" by (auto simp: applyCursor_def)
  then show ?thesis by blast
next
  case False
  then obtain c where c: "cursor = Some c" "c \<noteq> []" by auto
  let ?k = "length (takeWhile (\<lambda>m. msg_id m \<noteq> c) L)"
  have "applyCursor cursor L = drop (Suc ?k) L"
    using c by (simp add: applyCursor_def dropWhile_eq_drop)
  also have "\<dots> = drop (min (Suc ?k) (length L)) L" by (simp add: min_def)
  finally show ?thesis by (intro exI[of _ "min (Suc ?k) (length L)"]) simp
qed

lemma remainingAt_after_page:
  assumes "distinct (map msg_id (messages s))" "[] \<notin> msg_id ` set (messages s)"
    and full: "limit \<le> length (remainingAt s u cid cursor)"
  shows "remainingAt s u cid (Some (msg_id (remainingAt s u cid cursor ! (limit - 1)))) =
           drop limit (remainingAt s u cid cursor)"
proof -
  let ?L = "visibleMessages s u cid"
  have dL: "distinct (map msg_id ?L)" by (rule visibleMessages_distinct[OF assms(1)])
  have neL: "[] \<notin> msg_id ` set ?L"
    using assms(2) visibleMessages_subset[of s u cid] by blast
  obtain j where j: "j \<le> length ?L" "remainingAt s u cid cursor = drop j ?L"
    using applyCursor_suffix[of ?L cursor] unfolding remainingAt_def by blast
  have bound: "j + limit \<le> length ?L" using full j by simp
  have nth: "remainingAt s u cid cursor ! (limit - 1) = ?L ! (j + limit - 1)"
    using bound by (simp add: j(2) limit_def add.commute)
  have "applyCursor (if j + limit = 0 then None else Some (msg_id (?L ! (j + limit - 1)))) ?L
          = drop (j + limit) ?L"
    by (rule applyCursor_nth[OF dL neL bound])
  then have "applyCursor (Some (msg_id (?L ! (j + limit - 1)))) ?L = drop (j + limit) ?L"
    by (simp add: limit_def)
  then show ?thesis
    unfolding nth unfolding remainingAt_def j(2)[unfolded remainingAt_def]
    by (simp add: add.commute)
qed

section \<open>Properties of the conversation list\<close>

lemma sort_desc_head:
  fixes f :: "'a \<Rightarrow> int"
  assumes "xs \<noteq> []"
  shows "\<exists>m rest. sort_key (\<lambda>x. - f x) xs = m # rest \<and> f m = Max (f ` set xs)"
proof -
  let ?ys = "sort_key (\<lambda>x. - f x) xs"
  have "length ?ys = length xs" by simp
  then have "?ys \<noteq> []" using assms by (metis length_0_conv)
  then obtain m rest where ys: "?ys = m # rest" by (cases ?ys) auto
  have "sorted (map (\<lambda>x. - f x) ?ys)" by (rule sorted_sort_key)
  then have le: "\<forall>y \<in> set rest. f y \<le> f m" unfolding ys by auto
  have set: "set xs = insert m (set rest)"
    using set_sort[of "\<lambda>x. - f x" xs] unfolding ys by simp
  have "Max (f ` set xs) = f m"
  proof (rule Max_eqI)
    show "finite (f ` set xs)" by simp
    show "f m \<in> f ` set xs" using set by simp
    fix y assume "y \<in> f ` set xs"
    then show "y \<le> f m" using set le by auto
  qed
  then show ?thesis using ys by simp
qed

lemma sortTime_entryFor:
  "sortTime (entryFor s u hides c) =
     (let live = filter (\<lambda>m. msg_conversationId m = conv_id c \<and> msg_deletedAt m = None)
                   (messages s)
      in if live = [] then conv_createdAt c
         else (case visibleFromMap hides (conv_id c) of
                 None \<Rightarrow> Max (msg_createdAt ` set live)
               | Some vf \<Rightarrow>
                   if Max (msg_createdAt ` set live) < vf then conv_createdAt c
                   else Max (msg_createdAt ` set live)))"
proof -
  let ?live = "filter (\<lambda>m. msg_conversationId m = conv_id c \<and> msg_deletedAt m = None) (messages s)"
  show ?thesis
  proof (cases "?live = []")
    case True
    then have "lastMessageInclude s (conv_id c) = []"
      by (simp add: lastMessageInclude_def orderByCreatedAtDesc_def)
    then show ?thesis using True
      by (simp add: sortTime_def entryFor_def previewFor_def Let_def split: option.split)
  next
    case False
    from sort_desc_head[OF False, of msg_createdAt]
    obtain m rest where mr: "sort_key (\<lambda>x. - msg_createdAt x) ?live = m # rest"
      "msg_createdAt m = Max (msg_createdAt ` set ?live)" by blast
    have "lastMessageInclude s (conv_id c) = [m]"
      unfolding lastMessageInclude_def orderByCreatedAtDesc_def mr(1) by simp
    then show ?thesis using False mr(2)
      by (simp add: sortTime_def entryFor_def previewFor_def Let_def split: option.split)
  qed
qed

lemma findManyConversations_where:
  "filter (\<lambda>c. conv_createdAt c = t) (findManyConversations s u (trulyHidden (hidesOf s u))) =
   filter (\<lambda>c. (\<exists>p \<in> set (participants s). part_conversationId p = conv_id c \<and> part_userId p = u) \<and>
               \<not> (\<exists>h \<in> set (conversationHides s). ch_userId h = u \<and>
                     ch_conversationId h = conv_id c \<and> ch_visibleFrom h = None) \<and>
               conv_createdAt c = t)
     (conversations s)"
proof -
  have hid: "(x \<in> set (trulyHidden (hidesOf s u))) =
        (\<exists>h \<in> set (conversationHides s). ch_userId h = u \<and> ch_conversationId h = x \<and>
            ch_visibleFrom h = None)" for x
    by (auto simp: trulyHidden_def hidesOf_def)
  have "filter (\<lambda>c. - conv_createdAt c = - t) (findManyConversations s u (trulyHidden (hidesOf s u))) =
        filter (\<lambda>c. - conv_createdAt c = - t)
          (filter (\<lambda>c. (\<exists>p \<in> set (participants s).
                        part_conversationId p = conv_id c \<and> part_userId p = u) \<and>
                     conv_id c \<notin> set (trulyHidden (hidesOf s u)))
          (conversations s))"
    unfolding findManyConversations_def by (rule sort_key_stable)
  then show ?thesis by (simp add: hid conj_commute conj_left_commute cong: filter_cong)
qed

lemma findManyConversations_sorted:
  "sorted_wrt (\<lambda>a b. conv_createdAt b \<le> conv_createdAt a) (findManyConversations s u ex)"
proof -
  have "sorted (map (\<lambda>c. - conv_createdAt c) (findManyConversations s u ex))"
    unfolding findManyConversations_def by (rule sorted_sort_key)
  then show ?thesis by (simp add: sorted_map)
qed

lemma visibleFromMap_record:
  "(case visibleFromMap (hidesOf s u) cid of
      None \<Rightarrow> \<not> (\<exists>h \<in> set (conversationHides s). ch_userId h = u \<and>
                   ch_conversationId h = cid \<and> ch_visibleFrom h \<noteq> None)
    | Some vf \<Rightarrow> \<exists>h \<in> set (conversationHides s). ch_userId h = u \<and>
                   ch_conversationId h = cid \<and> ch_visibleFrom h = Some vf)"
proof -
  let ?ps = "rev (map (\<lambda>h. (ch_conversationId h, ch_visibleFrom h)) (restarted (hidesOf s u)))"
  show ?thesis
  proof (cases "map_of ?ps cid")
    case None
    then have "cid \<notin> fst ` set ?ps" by (simp add: map_of_eq_None_iff)
    then have "\<not> (\<exists>h \<in> set (conversationHides s). ch_userId h = u \<and>
                   ch_conversationId h = cid \<and> ch_visibleFrom h \<noteq> None)"
      by (force simp: restarted_def hidesOf_def)
    then show ?thesis using None by (simp add: visibleFromMap_def)
  next
    case (Some v)
    then have "(cid, v) \<in> set ?ps" by (rule map_of_SomeD)
    then obtain h where h: "h \<in> set (conversationHides s)" "ch_userId h = u"
      "ch_conversationId h = cid" "ch_visibleFrom h = v" "v \<noteq> None"
      by (auto simp: restarted_def hidesOf_def)
    then show ?thesis using Some by (cases v) (auto simp: visibleFromMap_def)
  qed
qed

section \<open>Properties of the example states\<close>

lemma bulk_ids: "map msg_id (messages (bulk n)) = map (\<lambda>i. replicate (Suc i) (CHR ''m'')) [0..<n]"
  by (simp add: bulk_def bulkMessage_def demoMessage_def)

lemma bulk_distinct: "distinct (map msg_id (messages (bulk n)))"
proof -
  have "inj_on (\<lambda>i. replicate (Suc i) (CHR ''m'')) (set [0..<n])"
  proof (rule inj_onI)
    fix i j
    assume "replicate (Suc i) (CHR ''m'') = replicate (Suc j) (CHR ''m'')"
    then have "length (replicate (Suc i) (CHR ''m'')) = length (replicate (Suc j) (CHR ''m''))"
      by (rule arg_cong)
    then show "i = j" by simp
  qed
  then show ?thesis unfolding bulk_ids by (simp add: distinct_map)
qed

lemma bulk_nonempty: "[] \<notin> msg_id ` set (messages (bulk n))"
  by (auto simp: bulk_def bulkMessage_def demoMessage_def)

lemma bulk_visible: "length (visibleMessages (bulk n) ''alice'' ''c1'') = n"
proof -
  have hides: "findConversationHide (bulk n) ''c1'' ''alice'' = None"
    by (simp add: findConversationHide_def bulk_def demo_def)
  have "messageWhere (bulk n) ''alice'' ''c1'' None m" if "m \<in> set (messages (bulk n))" for m
    using that
    by (auto simp: messageWhere_def hiddenFor_def bulk_def bulkMessage_def demoMessage_def demo_def)
  then have all: "filter (messageWhere (bulk n) ''alice'' ''c1'' None) (messages (bulk n)) = messages (bulk n)"
    by (simp add: filter_id_conv)
  have vf: "visibleFromOf (findConversationHide (bulk n) ''c1'' ''alice'') = None"
    by (simp add: hides visibleFromOf_def)
  have len: "length (messages (bulk n)) = n" by (simp add: bulk_def)
  show ?thesis
    unfolding visibleMessages_def orderByCreatedAtDesc_def vf all by (simp add: len)
qed

lemma bulk_participant: "findParticipant (bulk n) ''c1'' ''alice'' \<noteq> None"
  by (simp add: findParticipant_def bulk_def demo_def)

section \<open>Claims\<close>

text \<open>
  C4. Reading the same page twice in a row by the same user is idempotent on
  the read receipts: the second read leaves the whole store, and so the set of
  read rows, as the first read left it; it inserts nothing; and it answers as
  the first read did (the same messages and cursor, no error where the first
  read had none).
\<close>

theorem listMessages_read_idempotent:
  "snd (listMessages (snd (listMessages s u cid cursor t1)) u cid cursor t2)
     = snd (listMessages s u cid cursor t1) \<and>
   messageReads (snd (listMessages (snd (listMessages s u cid cursor t1)) u cid cursor t2))
     = messageReads (snd (listMessages s u cid cursor t1)) \<and>
   map_sum id (\<lambda>p. (map mv_message (page_messages p), nextCursor p))
       (fst (listMessages (snd (listMessages s u cid cursor t1)) u cid cursor t2))
     = map_sum id (\<lambda>p. (map mv_message (page_messages p), nextCursor p))
       (fst (listMessages s u cid cursor t1))"
proof (cases "findParticipant s cid u")
  case None
  then show ?thesis by (simp add: listMessages_def)
next
  case (Some p)
  let ?s' = "snd (listMessages s u cid cursor t1)"
  have fp: "findParticipant ?s' cid u = Some p"
    using Some by (simp add: findParticipant_def listMessages_fields)
  have fm: "findManyMessages ?s' u cid cursor = findManyMessages s u cid cursor"
    by (rule findManyMessages_cong) (simp_all add: listMessages_fields)
  have "unreadMessages u (map (includeRelations ?s') (findManyMessages ?s' u cid cursor)) = []"
    unfolding fm using unread_after_read_empty[OF Some] .
  then have st: "snd (listMessages ?s' u cid cursor t2) = ?s'"
    using fp by (simp add: listMessages_state[of ?s'] Let_def)
  have rs: "map_sum id (\<lambda>p. (map mv_message (page_messages p), nextCursor p))
       (fst (listMessages ?s' u cid cursor t2))
     = map_sum id (\<lambda>p. (map mv_message (page_messages p), nextCursor p))
       (fst (listMessages s u cid cursor t1))"
    using fp Some
    by (simp add: listMessages_response[of ?s'] listMessages_response[of s] fm rev_map o_def
        mv_message_includeRelations)
  show ?thesis using st rs by simp
qed

theorem listMessages_read_idempotent_witness:
  "messageReads (snd (listMessages demo ''alice'' ''c1'' None 100)) =
     [\<lparr> mr_messageId = ''m3'', mr_userId = ''alice'', mr_readAt = 100 \<rparr>,
      \<lparr> mr_messageId = ''m2'', mr_userId = ''alice'', mr_readAt = 100 \<rparr>] \<and>
   messageReads (snd (listMessages (snd (listMessages demo ''alice'' ''c1'' None 100))
                        ''alice'' ''c1'' None 200)) =
     [\<lparr> mr_messageId = ''m3'', mr_userId = ''alice'', mr_readAt = 100 \<rparr>,
      \<lparr> mr_messageId = ''m2'', mr_userId = ''alice'', mr_readAt = 100 \<rparr>]"
proof -
  have first: "messageReads (snd (listMessages demo ''alice'' ''c1'' None 100)) =
     [\<lparr> mr_messageId = ''m3'', mr_userId = ''alice'', mr_readAt = 100 \<rparr>,
      \<lparr> mr_messageId = ''m2'', mr_userId = ''alice'', mr_readAt = 100 \<rparr>]"
    by (simp add: listMessages_state demo_def demoMessage_def demoImage_def findParticipant_def
        findManyMessages_def remainingAt_def visibleMessages_def applyCursor_def
        findConversationHide_def visibleFromOf_def messageWhere_def hiddenFor_def
        orderByCreatedAtDesc_def includeRelations_def unreadMessages_def createManyReads_def
        createRead_def limit_def Let_def)
  show ?thesis
    using listMessages_read_idempotent [of demo "''alice''" "''c1''" None 100 200] first
    by simp
qed

text \<open>
  C9. A per-message hide record created by user a changes nothing in what the
  history of another user b returns: the response (messages with content,
  cursor) is the same, b's read receipts come out the same, and no
  conversation hide record is touched.
\<close>

theorem messageHide_invisible_to_others:
  assumes "a \<noteq> b"
  shows "fst (listMessages (snd (hideMessage s a mid t)) b cid cursor now)
           = fst (listMessages s b cid cursor now) \<and>
         messageReads (snd (listMessages (snd (hideMessage s a mid t)) b cid cursor now))
           = messageReads (snd (listMessages s b cid cursor now)) \<and>
         conversationHides (snd (hideMessage s a mid t)) = conversationHides s"
proof -
  let ?s' = "snd (hideMessage s a mid t)"
  have fm: "findManyMessages ?s' b cid cursor = findManyMessages s b cid cursor"
    by (rule findManyMessages_hiddenFor)
       (simp_all add: hideMessage_fields hideMessage_other_user[OF assms])
  have ir: "includeRelations ?s' = includeRelations s"
    by (rule includeRelations_cong) (simp_all add: hideMessage_fields)
  have fp: "findParticipant ?s' cid b = findParticipant s cid b"
    by (simp add: findParticipant_def hideMessage_fields)
  have "fst (listMessages ?s' b cid cursor now) = fst (listMessages s b cid cursor now)"
    by (simp add: listMessages_response fm ir fp split: option.split)
  moreover have "messageReads (snd (listMessages ?s' b cid cursor now))
           = messageReads (snd (listMessages s b cid cursor now))"
    by (simp add: listMessages_state fm ir fp Let_def hideMessage_fields split: option.split)
  ultimately show ?thesis by (simp add: hideMessage_fields)
qed

theorem messageHide_invisible_to_others_witness:
  "''alice'' \<noteq> ''bob'' \<and>
   messageHides (snd (hideMessage demo ''alice'' ''m2'' 50)) =
     [\<lparr> mh_messageId = ''m2'', mh_userId = ''alice'', mh_createdAt = 50 \<rparr>] \<and>
   fst (listMessages (snd (hideMessage demo ''alice'' ''m2'' 50)) ''bob'' ''c1'' None 100)
     = fst (listMessages demo ''bob'' ''c1'' None 100)"
proof -
  have neq: "''alice'' \<noteq> ''bob''" by simp
  have "messageHides (snd (hideMessage demo ''alice'' ''m2'' 50)) =
     [\<lparr> mh_messageId = ''m2'', mh_userId = ''alice'', mh_createdAt = 50 \<rparr>]"
    by (simp add: hideMessage_def demo_defs)
  then show ?thesis
    using messageHide_invisible_to_others [OF neq, of demo "''m2''" 50 "''c1''" None 100] by simp
qed

text \<open>
  C5. Whatever the caller's hide state was, hiding a conversation as a
  participant succeeds and leaves the caller's record with a null
  \<^verbatim>\<open>visibleFrom\<close> and \<^verbatim>\<open>hiddenAt\<close> at the time of the call, and the caller's
  conversation list no longer contains the conversation.
\<close>

theorem hideConversation_fully_hides:
  assumes "findParticipant s cid u \<noteq> None"
  shows "fst (hideConversation s u cid now) = Inr () \<and>
         map_option (\<lambda>h. (ch_hiddenAt h, ch_visibleFrom h))
           (findConversationHide (snd (hideConversation s u cid now)) cid u) = Some (now, None) \<and>
         cid \<notin> set (map (conv_id \<circ> ce_conversation)
                       (listConversations (snd (hideConversation s u cid now)) u))"
proof -
  obtain p where p: "findParticipant s cid u = Some p" using assms by auto
  have r: "map_option (\<lambda>h. (ch_hiddenAt h, ch_visibleFrom h))
           (findConversationHide (snd (hideConversation s u cid now)) cid u) = Some (now, None)"
    by (rule hideConversation_record[OF p])
  then obtain h where "findConversationHide (snd (hideConversation s u cid now)) cid u = Some h"
    "ch_visibleFrom h = None" by auto
  then have "cid \<notin> set (map (conv_id \<circ> ce_conversation)
                       (listConversations (snd (hideConversation s u cid now)) u))"
    by (rule trulyHidden_excluded)
  then show ?thesis using r p by (simp add: hideConversation_def)
qed

theorem hideConversation_fully_hides_witness:
  "findParticipant demoWindowed ''c1'' ''alice'' \<noteq> None \<and>
   map (conv_id \<circ> ce_conversation) (listConversations demoWindowed ''alice'') = [''c1''] \<and>
   conversationHides (snd (hideConversation demoWindowed ''alice'' ''c1'' 50)) =
     [\<lparr> ch_conversationId = ''c1'', ch_userId = ''alice'', ch_hiddenAt = 50,
        ch_visibleFrom = None \<rparr>] \<and>
   ''c1'' \<notin> set (map (conv_id \<circ> ce_conversation)
                   (listConversations (snd (hideConversation demoWindowed ''alice'' ''c1'' 50)) ''alice''))"
proof -
  have p: "findParticipant demoWindowed ''c1'' ''alice'' \<noteq> None"
    by (simp add: findParticipant_def demo_defs)
  have before: "map (conv_id \<circ> ce_conversation) (listConversations demoWindowed ''alice'') = [''c1'']"
    by code_simp
  have after: "conversationHides (snd (hideConversation demoWindowed ''alice'' ''c1'' 50)) =
     [\<lparr> ch_conversationId = ''c1'', ch_userId = ''alice'', ch_hiddenAt = 50,
        ch_visibleFrom = None \<rparr>]"
    by (simp add: hideConversation_def findParticipant_def findConversationHide_def demo_defs)
  show ?thesis
    using hideConversation_fully_hides [OF p, of 50] p before after by simp
qed




text \<open>
  C10. For a participant, a send whose content is a non-empty string of white
  space only, with no files, passes the required-field check, creates no row,
  and ends in the internal error with the store unchanged.
\<close>

theorem send_whitespace_only_fails:
  assumes "findParticipant s cid u \<noteq> None" "content \<noteq> []" "\<forall>c \<in> set content. isWhiteSpace c"
  shows "truthy (Some content) \<and>
         sendMessage s u cid (Some content) [] env = (Inl InternalServerError, s)"
  using assms by (auto simp: sendMessage_def truthy_def trim_whitespace Let_def)

theorem send_whitespace_only_fails_witness:
  "findParticipant demo ''c1'' ''alice'' \<noteq> None \<and> [32, 9, 160] \<noteq> ([] :: nat list) \<and>
   isWhiteSpace 32 \<and> isWhiteSpace 9 \<and> isWhiteSpace 160 \<and>
   sendMessage demo ''alice'' ''c1'' (Some [32, 9, 160]) [] demoEnv = (Inl InternalServerError, demo)"
proof -
  have p: "findParticipant demo ''c1'' ''alice'' \<noteq> None"
    by (simp add: findParticipant_def demo_defs)
  have ne: "[32, 9, 160] \<noteq> ([] :: nat list)" by simp
  have ws: "\<forall>c \<in> set [32, 9, 160]. isWhiteSpace c" by (simp add: isWhiteSpace_def)
  show ?thesis
    using send_whitespace_only_fails [OF p ne ws, of demoEnv] p ws by simp
qed

text \<open>
  C1, evaluated on the example conversation: bob soft-deletes his message m3
  through the delete handler; the history read by alice then returns m3 as a
  row, and the row carries the stored content next to the deletion time.
\<close>

theorem listMessages_serves_deleted_content:
  "deleteMessage (demo\<lparr> messages := [demoMessage ''m1'' ''alice'' [104, 105] 10,
       demoImage ''m2'' ''bob'' 20,
       demoMessage ''m3'' ''bob'' [115, 101, 99, 114, 101, 116] 30] \<rparr>) ''bob'' ''m3'' 35
     = (Inr (), demo) \<and>
   fst (listMessages demo ''alice'' ''c1'' None 100) =
     Inr \<lparr> page_messages =
            [\<lparr> mv_message = demoMessage ''m1'' ''alice'' [104, 105] 10,
               mv_reads = [], mv_reactions = [] \<rparr>,
             \<lparr> mv_message = demoImage ''m2'' ''bob'' 20, mv_reads = [], mv_reactions = [] \<rparr>,
             \<lparr> mv_message =
                 \<lparr> msg_id = ''m3'', msg_conversationId = ''c1'', msg_senderId = ''bob'',
                    msg_content = Some [115, 101, 99, 114, 101, 116], msg_type = TEXT,
                    msg_fileUrl = None, msg_fileName = None, msg_fileSize = None,
                    msg_groupId = None, msg_createdAt = 30, msg_deletedAt = Some 35 \<rparr>,
               mv_reads = [], mv_reactions = [] \<rparr>],
          nextCursor = None \<rparr>"
  by code_simp

text \<open>
  C6, evaluated on two variants of the example conversation: the image m2 is
  outside alice's visible messages, once because she hid it and once because it
  predates her window, and the attachments listing returns it to her both times.
\<close>

theorem listAttachments_ignores_hide_and_window:
  "listAttachments demoMessageHidden ''alice'' ''c1'' =
     Inr [\<lparr> att_id = ''m2'', att_fileUrl = Some ''https://blob/cat.png'',
            att_fileName = Some ''cat.png'', att_type = IMAGE, att_createdAt = 20,
            att_senderId = ''bob'' \<rparr>] \<and>
   demoImage ''m2'' ''bob'' 20 \<notin> set (visibleMessages demoMessageHidden ''alice'' ''c1'') \<and>
   listAttachments demoWindowed ''alice'' ''c1'' =
     Inr [\<lparr> att_id = ''m2'', att_fileUrl = Some ''https://blob/cat.png'',
            att_fileName = Some ''cat.png'', att_type = IMAGE, att_createdAt = 20,
            att_senderId = ''bob'' \<rparr>] \<and>
   demoImage ''m2'' ''bob'' 20 \<notin> set (visibleMessages demoWindowed ''alice'' ''c1'')"
  by code_simp

text \<open>
  C3, as stated, fails: with exactly \<open>limit\<close> visible messages remaining at the
  cursor the handler signals a next page, and the page behind that cursor is
  empty.
\<close>

theorem next_page_signalled_without_further_page:
  "length (remainingAt (bulk 30) ''alice'' ''c1'' None) = limit \<and>
   map_sum id nextCursor (fst (listMessages (bulk 30) ''alice'' ''c1'' None 100)) = Inr (Some ''m'') \<and>
   remainingAt (bulk 30) ''alice'' ''c1'' (Some ''m'') = []"
  by code_simp

text \<open>
  C3, amended. A page holds at most \<open>limit\<close> messages, the newest \<open>limit\<close> of
  the visible messages remaining at the cursor, oldest first. A next page is
  signalled exactly when the page is full, that is exactly when at least
  \<open>limit\<close> visible messages remained at the cursor; the cursor is then the id
  of the oldest message of the page, and, message ids being distinct non-empty
  keys, the visible messages remaining at that cursor are those that remained
  before less the \<open>limit\<close> of the page: none, when exactly \<open>limit\<close> remained.
\<close>

theorem listMessages_page_and_cursor:
  assumes "fst (listMessages s u cid cursor now) = Inr p"
  shows "length (page_messages p) \<le> limit \<and>
         map mv_message (page_messages p) = rev (take limit (remainingAt s u cid cursor)) \<and>
         (nextCursor p \<noteq> None) = (length (page_messages p) = limit) \<and>
         nextCursor p =
           (if limit \<le> length (remainingAt s u cid cursor)
            then Some (msg_id (remainingAt s u cid cursor ! (limit - 1))) else None) \<and>
         (distinct (map msg_id (messages s)) \<and> [] \<notin> msg_id ` set (messages s) \<and>
          limit \<le> length (remainingAt s u cid cursor) \<longrightarrow>
            remainingAt (snd (listMessages s u cid cursor now)) u cid (nextCursor p) =
              drop limit (remainingAt s u cid cursor))"
proof -
  let ?R = "remainingAt s u cid cursor"
  have p: "p = \<lparr> page_messages = rev (map (includeRelations s) (findManyMessages s u cid cursor)),
                nextCursor = (if length (findManyMessages s u cid cursor) = limit
                              then Some (msg_id (last (findManyMessages s u cid cursor))) else None) \<rparr>"
    using assms unfolding listMessages_response by (auto split: option.splits)
  have len: "(length (findManyMessages s u cid cursor) = limit) = (limit \<le> length ?R)"
    by (auto simp: findManyMessages_def)
  have lst: "limit \<le> length ?R \<Longrightarrow> last (findManyMessages s u cid cursor) = ?R ! (limit - 1)"
    using last_take_drop[of limit 0 ?R] by (simp add: findManyMessages_def limit_def)
  have msgs: "map mv_message (page_messages p) = rev (take limit ?R)"
    unfolding p by (simp add: rev_map o_def mv_message_includeRelations findManyMessages_def)
  have cur: "nextCursor p = (if limit \<le> length ?R then Some (msg_id (?R ! (limit - 1))) else None)"
    unfolding p using len lst by simp
  have size: "length (page_messages p) = min limit (length ?R)"
    unfolding p by (simp add: findManyMessages_def min_def)
  have behind: "remainingAt (snd (listMessages s u cid cursor now)) u cid (nextCursor p) =
              drop limit ?R"
    if "distinct (map msg_id (messages s))" "[] \<notin> msg_id ` set (messages s)" "limit \<le> length ?R"
  proof -
    have "remainingAt (snd (listMessages s u cid cursor now)) u cid (nextCursor p) =
          remainingAt s u cid (nextCursor p)"
      by (simp add: remainingAt_def visibleMessages_after_read)
    also have "\<dots> = remainingAt s u cid (Some (msg_id (?R ! (limit - 1))))"
      using cur that(3) by simp
    also have "\<dots> = drop limit ?R" by (rule remainingAt_after_page[OF that])
    finally show ?thesis .
  qed
  have a: "length (page_messages p) \<le> limit" using size by simp
  have c: "(nextCursor p \<noteq> None) = (length (page_messages p) = limit)"
    using cur size by (auto simp: min_def)
  show ?thesis using a msgs c cur behind by blast
qed

theorem listMessages_page_and_cursor_witness:
  "length (remainingAt (bulk 30) ''alice'' ''c1'' None) = 30 \<and>
   (\<exists>p. fst (listMessages (bulk 30) ''alice'' ''c1'' None 100) = Inr p \<and>
        length (page_messages p) = 30 \<and> nextCursor p \<noteq> None \<and>
        remainingAt (snd (listMessages (bulk 30) ''alice'' ''c1'' None 100)) ''alice'' ''c1''
          (nextCursor p) = [])"
proof -
  let ?R = "remainingAt (bulk 30) ''alice'' ''c1'' None"
  have len: "length ?R = 30"
    using bulk_visible[of 30] by (simp add: remainingAt_def applyCursor_def)
  obtain p where p: "fst (listMessages (bulk 30) ''alice'' ''c1'' None 100) = Inr p"
    using bulk_participant[of 30]
    by (cases "fst (listMessages (bulk 30) ''alice'' ''c1'' None 100)")
       (auto simp: listMessages_response)
  note inst = listMessages_page_and_cursor [OF p]
  have full: "limit \<le> length ?R" using len by (simp add: limit_def)
  have size: "length (page_messages p) = 30"
  proof -
    have "length (map mv_message (page_messages p)) = length (rev (take limit ?R))"
      using inst by simp
    then show ?thesis using len by (simp add: limit_def)
  qed
  have cur: "nextCursor p \<noteq> None" using inst full by simp
  have "remainingAt (snd (listMessages (bulk 30) ''alice'' ''c1'' None 100)) ''alice'' ''c1''
          (nextCursor p) = drop limit ?R"
    using inst bulk_distinct[of 30] bulk_nonempty[of 30] full by blast
  then have "remainingAt (snd (listMessages (bulk 30) ''alice'' ''c1'' None 100)) ''alice'' ''c1''
          (nextCursor p) = []"
    using len by (simp add: limit_def)
  then show ?thesis using len p size cur by blast
qed

text \<open>
  C7, as stated, fails: two conversations with the same sort key come out in
  the order of their rows in storage, so the same rows stored in the other
  order give the other list.
\<close>

theorem conversation_order_follows_storage_order:
  "set (conversations tieB) = set (conversations tieA) \<and>
   map (conv_id \<circ> ce_conversation) (listConversations tieA ''alice'') = [''c1'', ''c2''] \<and>
   map (conv_id \<circ> ce_conversation) (listConversations tieB ''alice'') = [''c2'', ''c1''] \<and>
   map sortTime (listConversations tieA ''alice'') = [7, 7]"
proof -
  have "set (conversations tieB) = set (conversations tieA)" by (simp add: tieB_def)
  moreover have "map (conv_id \<circ> ce_conversation) (listConversations tieA ''alice'') = [''c1'', ''c2'']"
    by code_simp
  moreover have "map (conv_id \<circ> ce_conversation) (listConversations tieB ''alice'') = [''c2'', ''c1'']"
    by code_simp
  moreover have "map sortTime (listConversations tieA ''alice'') = [7, 7]"
    by code_simp
  ultimately show ?thesis by simp
qed

text \<open>
  C7, amended. The conversation list is sorted by sort key, newest first, and
  conversations with the same sort key keep the order in which the
  conversation query returned them: creation time descending, and for equal
  creation times the storage order of the conversations the caller takes part
  in and has no hide record with a null \<^verbatim>\<open>visibleFrom\<close> for. The sort key of a
  conversation is the creation time of its newest message that is not deleted,
  unless there is none or the caller's window starts after it; then it is the
  creation time of the conversation. The window is the \<^verbatim>\<open>visibleFrom\<close> of a
  hide record of the caller for the conversation. The comparator has no
  further tie-break.
\<close>

theorem listConversations_sorted_stable:
  "sorted_wrt (\<lambda>a b. sortTime b \<le> sortTime a) (listConversations s u) \<and>
   filter (\<lambda>e. sortTime e = k) (listConversations s u) =
     filter (\<lambda>e. sortTime e = k)
       (map (entryFor s u (hidesOf s u)) (findManyConversations s u (trulyHidden (hidesOf s u)))) \<and>
   sorted_wrt (\<lambda>a b. conv_createdAt b \<le> conv_createdAt a)
     (findManyConversations s u (trulyHidden (hidesOf s u))) \<and>
   filter (\<lambda>c. conv_createdAt c = t) (findManyConversations s u (trulyHidden (hidesOf s u))) =
     filter (\<lambda>c. (\<exists>p \<in> set (participants s). part_conversationId p = conv_id c \<and> part_userId p = u) \<and>
                 \<not> (\<exists>h \<in> set (conversationHides s). ch_userId h = u \<and>
                       ch_conversationId h = conv_id c \<and> ch_visibleFrom h = None) \<and>
                 conv_createdAt c = t)
       (conversations s) \<and>
   sortTime (entryFor s u (hidesOf s u) c) =
     (let live = filter (\<lambda>m. msg_conversationId m = conv_id c \<and> msg_deletedAt m = None)
                   (messages s)
      in if live = [] then conv_createdAt c
         else (case visibleFromMap (hidesOf s u) (conv_id c) of
                 None \<Rightarrow> Max (msg_createdAt ` set live)
               | Some vf \<Rightarrow>
                   if Max (msg_createdAt ` set live) < vf then conv_createdAt c
                   else Max (msg_createdAt ` set live))) \<and>
   (case visibleFromMap (hidesOf s u) (conv_id c) of
      None \<Rightarrow> \<not> (\<exists>h \<in> set (conversationHides s). ch_userId h = u \<and>
                   ch_conversationId h = conv_id c \<and> ch_visibleFrom h \<noteq> None)
    | Some vf \<Rightarrow> \<exists>h \<in> set (conversationHides s). ch_userId h = u \<and>
                   ch_conversationId h = conv_id c \<and> ch_visibleFrom h = Some vf)"
proof -
  let ?xs = "map (entryFor s u (hidesOf s u)) (findManyConversations s u (trulyHidden (hidesOf s u)))"
  have "sorted (map (\<lambda>e. - sortTime e) (sort_key (\<lambda>e. - sortTime e) ?xs))"
    by (rule sorted_sort_key)
  then have a: "sorted_wrt (\<lambda>a b. sortTime b \<le> sortTime a) (listConversations s u)"
    by (simp add: listConversations_def Let_def sorted_map)
  have "filter (\<lambda>e. - sortTime e = - k) (sort_key (\<lambda>e. - sortTime e) ?xs) =
        filter (\<lambda>e. - sortTime e = - k) ?xs"
    by (rule sort_key_stable)
  then have b: "filter (\<lambda>e. sortTime e = k) (listConversations s u) = filter (\<lambda>e. sortTime e = k) ?xs"
    by (simp add: listConversations_def Let_def)
  show ?thesis
    using a b findManyConversations_sorted[of s u "trulyHidden (hidesOf s u)"]
      findManyConversations_where[of t s u] sortTime_entryFor[of s u "hidesOf s u" c]
      visibleFromMap_record[of s u "conv_id c"]
    by blast
qed

theorem listConversations_sorted_stable_witness:
  "map (conv_id \<circ> ce_conversation)
     (filter (\<lambda>e. sortTime e = 7) (listConversations tieC ''alice'')) = [''c2'', ''c1'', ''c3''] \<and>
   map conv_id (filter (\<lambda>c. conv_createdAt c = 7)
     (findManyConversations tieC ''alice'' (trulyHidden (hidesOf tieC ''alice'')))) = [''c2'', ''c1''] \<and>
   visibleFromMap (hidesOf tieC ''alice'') ''c1'' = Some 60 \<and>
   sortTime (entryFor tieC ''alice'' (hidesOf tieC ''alice'')
      \<lparr> conv_id = ''c1'', conv_isGroup = False, conv_name = None,
        conv_createdById = ''alice'', conv_createdAt = 7 \<rparr>) = 7 \<and>
   sortTime (entryFor tieC ''alice'' (hidesOf tieC ''alice'')
      \<lparr> conv_id = ''c3'', conv_isGroup = True, conv_name = Some ''three'',
        conv_createdById = ''alice'', conv_createdAt = 3 \<rparr>) = 7"
proof -
  let ?c1 = "\<lparr> conv_id = ''c1'', conv_isGroup = False, conv_name = None,
        conv_createdById = ''alice'', conv_createdAt = 7 \<rparr>"
  let ?c3 = "\<lparr> conv_id = ''c3'', conv_isGroup = True, conv_name = Some ''three'',
        conv_createdById = ''alice'', conv_createdAt = 3 \<rparr>"
  note inst1 = listConversations_sorted_stable [of tieC "''alice''" 7 7 ?c1]
  note inst3 = listConversations_sorted_stable [of tieC "''alice''" 7 7 ?c3]
  have ties: "map (conv_id \<circ> ce_conversation)
          (filter (\<lambda>e. sortTime e = 7)
            (map (entryFor tieC ''alice'' (hidesOf tieC ''alice''))
               (findManyConversations tieC ''alice'' (trulyHidden (hidesOf tieC ''alice'')))))
        = [''c2'', ''c1'', ''c3'']"
    by code_simp
  have stored: "map conv_id
     (filter (\<lambda>c. (\<exists>p \<in> set (participants tieC). part_conversationId p = conv_id c \<and>
                     part_userId p = ''alice'') \<and>
                 \<not> (\<exists>h \<in> set (conversationHides tieC). ch_userId h = ''alice'' \<and>
                       ch_conversationId h = conv_id c \<and> ch_visibleFrom h = None) \<and>
                 conv_createdAt c = 7)
       (conversations tieC)) = [''c2'', ''c1'']"
    by code_simp
  have window: "visibleFromMap (hidesOf tieC ''alice'') ''c1'' = Some 60"
    "visibleFromMap (hidesOf tieC ''alice'') ''c3'' = None"
    by code_simp+
  have live1: "filter (\<lambda>m. msg_conversationId m = ''c1'' \<and> msg_deletedAt m = None) (messages tieC)
      = [demoMessage ''m1'' ''bob'' [104, 105] 50]"
    by (simp add: tieC_def demoMessage_def)
  have live3: "map msg_createdAt
      (filter (\<lambda>m. msg_conversationId m = ''c3'' \<and> msg_deletedAt m = None) (messages tieC)) = [7]"
    by (simp add: tieC_def demoMessage_def)
  have k1: "sortTime (entryFor tieC ''alice'' (hidesOf tieC ''alice'') ?c1) = 7"
    using inst1 by (simp add: window live1 demoMessage_def)
  have "msg_createdAt ` set (filter (\<lambda>m. msg_conversationId m = ''c3'' \<and> msg_deletedAt m = None)
      (messages tieC)) = {7}"
    using live3 by (metis list.set(1) list.set(2) set_map)
  then have k3: "sortTime (entryFor tieC ''alice'' (hidesOf tieC ''alice'') ?c3) = 7"
    using inst3 live3 by (auto simp: window Let_def)
  show ?thesis
    using inst1 ties stored window(1) k1 k3 by simp
qed

text \<open>
  C8. In a conversation with 100 messages visible to a participant (message
  ids being distinct, non-empty keys), four calls chained by the cursor all
  succeed, the fourth signals no further page, the four pages put one before
  the other from the last to the first are exactly the unpaged visible
  messages in ascending order, no id occurs twice, and every page is in
  ascending order of creation time.
\<close>

theorem four_pages_cover_hundred:
  assumes part: "findParticipant s cid u \<noteq> None"
    and ids: "distinct (map msg_id (messages s))"
    and nonempty: "[] \<notin> msg_id ` set (messages s)"
    and hundred: "length (visibleMessages s u cid) = 100"
  shows "\<exists>p1 s1 p2 s2 p3 s3 p4 s4.
           listMessages s u cid None t1 = (Inr p1, s1) \<and>
           listMessages s1 u cid (nextCursor p1) t2 = (Inr p2, s2) \<and>
           listMessages s2 u cid (nextCursor p2) t3 = (Inr p3, s3) \<and>
           listMessages s3 u cid (nextCursor p3) t4 = (Inr p4, s4) \<and>
           nextCursor p4 = None \<and>
           map mv_message (page_messages p4 @ page_messages p3 @ page_messages p2 @ page_messages p1)
             = rev (visibleMessages s u cid) \<and>
           distinct (map (msg_id \<circ> mv_message)
             (page_messages p4 @ page_messages p3 @ page_messages p2 @ page_messages p1)) \<and>
           sorted (map (msg_createdAt \<circ> mv_message) (page_messages p1)) \<and>
           sorted (map (msg_createdAt \<circ> mv_message) (page_messages p2)) \<and>
           sorted (map (msg_createdAt \<circ> mv_message) (page_messages p3)) \<and>
           sorted (map (msg_createdAt \<circ> mv_message) (page_messages p4))"
proof -
  define L where "L = visibleMessages s u cid"
  have len: "length L = 100" using hundred by (simp add: L_def)
  have dL: "distinct (map msg_id L)" unfolding L_def by (rule visibleMessages_distinct[OF ids])
  have neL: "[] \<notin> msg_id ` set L"
    using nonempty visibleMessages_subset[of s u cid] unfolding L_def by blast
  have sL: "sorted (map (\<lambda>m. - msg_createdAt m) L)"
    unfolding L_def by (rule visibleMessages_sorted)
  define page where "page st k = rev (map (includeRelations st) (take limit (drop k L)))" for st k
  have page_msgs: "map mv_message (page st k) = rev (take 30 (drop k L))" for st k
    by (simp add: page_def rev_map o_def mv_message_includeRelations limit_def)
  have step: "fst (listMessages st u cid (if k = 0 then None else Some (msg_id (L ! (k - 1)))) now) =
           Inr \<lparr> page_messages = page st k,
                 nextCursor = (if k + limit \<le> length L
                               then Some (msg_id (L ! (k + limit - 1))) else None) \<rparr>"
    if "findParticipant st cid u \<noteq> None" "visibleMessages st u cid = L" "k \<le> length L"
    for st k now
    unfolding page_def using page_at[OF that(1,2) dL neL that(3)] .
  define s1 where "s1 = snd (listMessages s u cid None t1)"
  define s2 where "s2 = snd (listMessages s1 u cid (Some (msg_id (L ! 29))) t2)"
  define s3 where "s3 = snd (listMessages s2 u cid (Some (msg_id (L ! 59))) t3)"
  define s4 where "s4 = snd (listMessages s3 u cid (Some (msg_id (L ! 89))) t4)"
  have v1: "visibleMessages s1 u cid = L" "findParticipant s1 cid u \<noteq> None"
    using part by (simp_all add: s1_def visibleMessages_after_read findParticipant_after_read L_def)
  have v2: "visibleMessages s2 u cid = L" "findParticipant s2 cid u \<noteq> None"
    using v1 by (simp_all add: s2_def visibleMessages_after_read findParticipant_after_read)
  have v3: "visibleMessages s3 u cid = L" "findParticipant s3 cid u \<noteq> None"
    using v2 by (simp_all add: s3_def visibleMessages_after_read findParticipant_after_read)
  define p1 where "p1 = \<lparr> page_messages = page s 0, nextCursor = Some (msg_id (L ! 29)) \<rparr>"
  define p2 where "p2 = \<lparr> page_messages = page s1 30, nextCursor = Some (msg_id (L ! 59)) \<rparr>"
  define p3 where "p3 = \<lparr> page_messages = page s2 60, nextCursor = Some (msg_id (L ! 89)) \<rparr>"
  define p4 where "p4 = \<lparr> page_messages = page s3 90, nextCursor = None \<rparr>"
  have c1: "listMessages s u cid None t1 = (Inr p1, s1)"
    using step[of s 0 t1] part len by (simp add: L_def p1_def s1_def limit_def prod_eq_iff)
  have c2: "listMessages s1 u cid (nextCursor p1) t2 = (Inr p2, s2)"
    using step[of s1 30 t2] v1 len by (simp add: p1_def p2_def s2_def limit_def prod_eq_iff)
  have c3: "listMessages s2 u cid (nextCursor p2) t3 = (Inr p3, s3)"
    using step[of s2 60 t3] v2 len by (simp add: p2_def p3_def s3_def limit_def prod_eq_iff)
  have c4: "listMessages s3 u cid (nextCursor p3) t4 = (Inr p4, s4)"
    using step[of s3 90 t4] v3 len by (simp add: p3_def p4_def s4_def limit_def prod_eq_iff)
  have all: "map mv_message (page_messages p4 @ page_messages p3 @ page_messages p2 @ page_messages p1)
               = rev L"
  proof -
    have "map mv_message (page_messages p4 @ page_messages p3 @ page_messages p2 @ page_messages p1)
            = rev (take 30 L @ take 30 (drop 30 L) @ take 30 (drop 60 L) @ take 30 (drop 90 L))"
      using page_msgs[of s 0] page_msgs[of s1 30] page_msgs[of s2 60] page_msgs[of s3 90]
      by (simp add: p1_def p2_def p3_def p4_def)
    then show ?thesis by (simp only: four_slices[OF len])
  qed
  have dist: "distinct (map (msg_id \<circ> mv_message)
             (page_messages p4 @ page_messages p3 @ page_messages p2 @ page_messages p1))"
  proof -
    have eq: "map (msg_id \<circ> mv_message)
             (page_messages p4 @ page_messages p3 @ page_messages p2 @ page_messages p1)
          = map msg_id (rev L)"
      using all by (simp only: map_map[symmetric])
    have "distinct (map msg_id (rev L))" using dL by (simp add: rev_map[symmetric])
    then show ?thesis unfolding eq .
  qed
  have asc: "sorted (map (msg_createdAt \<circ> mv_message) (page st k))" for st k
  proof -
    have "map (msg_createdAt \<circ> mv_message) (page st k) = map msg_createdAt (rev (take 30 (drop k L)))"
      using page_msgs[of st k] by (simp only: map_map[symmetric])
    then show ?thesis using page_ascending[OF sL, of 30 k] by simp
  qed
  have sorted4: "sorted (map (msg_createdAt \<circ> mv_message) (page_messages p1))"
    "sorted (map (msg_createdAt \<circ> mv_message) (page_messages p2))"
    "sorted (map (msg_createdAt \<circ> mv_message) (page_messages p3))"
    "sorted (map (msg_createdAt \<circ> mv_message) (page_messages p4))"
    by (simp_all add: p1_def p2_def p3_def p4_def asc)
  have last: "nextCursor p4 = None" by (simp add: p4_def)
  show ?thesis
    using c1 c2 c3 c4 last all[unfolded L_def] dist sorted4 by blast
qed

theorem four_pages_cover_hundred_witness:
  "length (visibleMessages (bulk 100) ''alice'' ''c1'') = 100 \<and>
   (\<exists>p1 s1 p2 s2 p3 s3 p4 s4.
      listMessages (bulk 100) ''alice'' ''c1'' None 1000 = (Inr p1, s1) \<and>
      listMessages s1 ''alice'' ''c1'' (nextCursor p1) 1001 = (Inr p2, s2) \<and>
      listMessages s2 ''alice'' ''c1'' (nextCursor p2) 1002 = (Inr p3, s3) \<and>
      listMessages s3 ''alice'' ''c1'' (nextCursor p3) 1003 = (Inr p4, s4) \<and>
      nextCursor p4 = None \<and>
      map mv_message (page_messages p4 @ page_messages p3 @ page_messages p2 @ page_messages p1)
        = rev (visibleMessages (bulk 100) ''alice'' ''c1''))"
proof -
  have len: "length (visibleMessages (bulk 100) ''alice'' ''c1'') = 100" by (rule bulk_visible)
  from four_pages_cover_hundred [OF bulk_participant bulk_distinct bulk_nonempty len,
      of 1000 1001 1002 1003]
  obtain p1 s1 p2 s2 p3 s3 p4 s4 where
    "listMessages (bulk 100) ''alice'' ''c1'' None 1000 = (Inr p1, s1)"
    "listMessages s1 ''alice'' ''c1'' (nextCursor p1) 1001 = (Inr p2, s2)"
    "listMessages s2 ''alice'' ''c1'' (nextCursor p2) 1002 = (Inr p3, s3)"
    "listMessages s3 ''alice'' ''c1'' (nextCursor p3) 1003 = (Inr p4, s4)"
    "nextCursor p4 = None"
    "map mv_message (page_messages p4 @ page_messages p3 @ page_messages p2 @ page_messages p1)
        = rev (visibleMessages (bulk 100) ''alice'' ''c1'')"
    by blast
  then show ?thesis using len by blast
qed

end
